theory Spec2Isabelle
  imports Main "HOL-Library.Word"
begin

section \<open>Governance.sol: data model\<close>

text \<open>
  Solidity 0.8 value types: \<open>uint256\<close> is a 256-bit unsigned word whose arithmetic is
  checked (an overflow reverts the call with \<open>Panic(0x11)\<close>), an \<open>address\<close> is a
  160-bit word, a \<open>string\<close> is a byte sequence.
\<close>

type_synonym uint256 = "256 word"
type_synonym address = "160 word"

text \<open>
  \<open>struct Proposal\<close>. The field \<open>id\<close> is named \<open>id_f\<close> here (\<open>id\<close> is the identity
  function of HOL). The nested \<open>mapping(address => bool) hasVoted\<close> is a total function,
  as a Solidity mapping is: an address never written reads \<open>false\<close>.
\<close>

record Proposal =
  id_f :: uint256
  title :: string
  description :: string
  proposer :: address
  endDate :: uint256
  votesFor :: uint256
  votesAgainst :: uint256
  totalVoters :: uint256
  isExecuted :: bool
  hasVoted :: "address \<Rightarrow> bool"

text \<open>The value every slot of \<open>mapping(uint256 => Proposal)\<close> has before it is written.\<close>

definition zero_Proposal :: Proposal where
  "zero_Proposal =
     \<lparr>id_f = 0, title = [], description = [], proposer = 0, endDate = 0, votesFor = 0,
      votesAgainst = 0, totalVoters = 0, isExecuted = False, hasVoted = (\<lambda>_. False)\<rparr>"

datatype event =
    ProposalCreated uint256 string address uint256
  | VoteCast uint256 address bool uint256 uint256
  | ProposalExecuted uint256 bool

text \<open>
  The contract's storage (\<open>proposals\<close>, \<open>proposalCount\<close>) together with the events
  emitted so far, oldest first.
\<close>

record state =
  proposals :: "uint256 \<Rightarrow> Proposal"
  proposalCount :: uint256
  log :: "event list"

text \<open>What a call sees of its environment: \<open>msg.sender\<close> and \<open>block.timestamp\<close>.\<close>

record env =
  msg_sender :: address
  block_timestamp :: uint256

text \<open>
  A failing call: \<open>require(c, msg)\<close> reverts with \<open>Error(msg)\<close>, checked arithmetic with
  \<open>Panic(code)\<close>.
\<close>

datatype revert = Revert string | Panic nat

definition VOTING_PERIOD :: uint256 where
  "VOTING_PERIOD = 14 * 86400"

definition MIN_VOTES_TO_PASS :: uint256 where
  "MIN_VOTES_TO_PASS = 1000"

section \<open>Governance.sol: operations\<close>

text \<open>Checked \<open>+\<close> of Solidity 0.8 on \<open>uint256\<close>.\<close>

definition checked_add :: "uint256 \<Rightarrow> uint256 \<Rightarrow> revert + uint256" where
  "checked_add a b = (if unat a + unat b < 2 ^ 256 then Inr (a + b) else Inl (Panic 17))"

text \<open>A write through the storage pointer \<open>Proposal storage proposal = proposals[proposalId]\<close>.\<close>

definition upd_proposal :: "uint256 \<Rightarrow> (Proposal \<Rightarrow> Proposal) \<Rightarrow> state \<Rightarrow> state" where
  "upd_proposal proposalId f s = s\<lparr>proposals := (proposals s)(proposalId := f (proposals s proposalId))\<rparr>"

definition emit :: "event \<Rightarrow> state \<Rightarrow> state" where
  "emit ev s = s\<lparr>log := log s @ [ev]\<rparr>"

text \<open>
  The modifiers. Each runs its \<open>require\<close> and then the rest of the call (\<open>_;\<close>), which
  is the argument \<open>body\<close>.
\<close>

definition validProposal :: "uint256 \<Rightarrow> (state \<Rightarrow> revert + 'a) \<Rightarrow> state \<Rightarrow> revert + 'a" where
  "validProposal proposalId body s =
     (if proposalId < proposalCount s then body s else Inl (Revert ''Proposal does not exist''))"

definition votingPeriod :: "env \<Rightarrow> uint256 \<Rightarrow> (state \<Rightarrow> revert + 'a) \<Rightarrow> state \<Rightarrow> revert + 'a" where
  "votingPeriod e proposalId body s =
     (if block_timestamp e \<le> endDate (proposals s proposalId) then body s
      else Inl (Revert ''Voting period has ended''))"

definition notExecuted :: "uint256 \<Rightarrow> (state \<Rightarrow> revert + 'a) \<Rightarrow> state \<Rightarrow> revert + 'a" where
  "notExecuted proposalId body s =
     (if \<not> isExecuted (proposals s proposalId) then body s
      else Inl (Revert ''Proposal already executed''))"

text \<open>\<open>constructor()\<close>: fresh storage, \<open>proposalCount = 0\<close>.\<close>

definition constructor :: state where
  "constructor = \<lparr>proposals = (\<lambda>_. zero_Proposal), proposalCount = 0, log = []\<rparr>"

text \<open>
  \<open>createProposal(title, description)\<close>. \<open>proposalCount++\<close> yields the old count and
  stores the checked successor; the fields are then written through the storage pointer,
  in the order of the source, with the checked \<open>block.timestamp + VOTING_PERIOD\<close> between
  them. The nested mapping \<open>hasVoted\<close> is not written.
\<close>

definition createProposal :: "env \<Rightarrow> string \<Rightarrow> string \<Rightarrow> state \<Rightarrow> revert + (uint256 \<times> state)" where
  "createProposal e titleArg descriptionArg s =
     (if \<not> length titleArg > 0 then Inl (Revert ''Title cannot be empty'')
      else if \<not> length descriptionArg > 0 then Inl (Revert ''Description cannot be empty'')
      else
        (case checked_add (proposalCount s) 1 of
           Inl err \<Rightarrow> Inl err
         | Inr cnt \<Rightarrow>
            (let proposalId = proposalCount s;
                 s1 = s\<lparr>proposalCount := cnt\<rparr>;
                 s2 = upd_proposal proposalId
                        (\<lambda>p. p\<lparr>id_f := proposalId, title := titleArg,
                                description := descriptionArg, proposer := msg_sender e\<rparr>) s1
             in case checked_add (block_timestamp e) VOTING_PERIOD of
                  Inl err \<Rightarrow> Inl err
                | Inr deadline \<Rightarrow>
                   (let s3 = upd_proposal proposalId
                               (\<lambda>p. p\<lparr>endDate := deadline, votesFor := 0, votesAgainst := 0,
                                       totalVoters := 0, isExecuted := False\<rparr>) s2;
                        s4 = emit (ProposalCreated proposalId titleArg (msg_sender e)
                                     (endDate (proposals s3 proposalId))) s3
                    in Inr (proposalId, s4)))))"

text \<open>The body of \<open>vote\<close>, after its two modifiers.\<close>

definition vote_body :: "env \<Rightarrow> uint256 \<Rightarrow> bool \<Rightarrow> state \<Rightarrow> revert + (unit \<times> state)" where
  "vote_body e proposalId support s =
     (if hasVoted (proposals s proposalId) (msg_sender e)
      then Inl (Revert ''Already voted on this proposal'')
      else
        (let s1 = upd_proposal proposalId
                    (\<lambda>p. p\<lparr>hasVoted := (hasVoted p)(msg_sender e := True)\<rparr>) s
         in case checked_add (totalVoters (proposals s1 proposalId)) 1 of
              Inl err \<Rightarrow> Inl err
            | Inr tv \<Rightarrow>
               (let s2 = upd_proposal proposalId (\<lambda>p. p\<lparr>totalVoters := tv\<rparr>) s1
                in case (if support
                         then (case checked_add (votesFor (proposals s2 proposalId)) 1 of
                                 Inl err \<Rightarrow> Inl err
                               | Inr vf \<Rightarrow> Inr (upd_proposal proposalId (\<lambda>p. p\<lparr>votesFor := vf\<rparr>) s2))
                         else (case checked_add (votesAgainst (proposals s2 proposalId)) 1 of
                                 Inl err \<Rightarrow> Inl err
                               | Inr va \<Rightarrow> Inr (upd_proposal proposalId (\<lambda>p. p\<lparr>votesAgainst := va\<rparr>) s2)))
                   of Inl err \<Rightarrow> Inl err
                    | Inr s3 \<Rightarrow>
                       Inr ((), emit (VoteCast proposalId (msg_sender e) support
                                        (votesFor (proposals s3 proposalId))
                                        (votesAgainst (proposals s3 proposalId))) s3))))"

text \<open>\<open>vote(proposalId, support)\<close> with \<open>validProposal\<close>, then \<open>votingPeriod\<close>, then the body.\<close>

definition vote :: "env \<Rightarrow> uint256 \<Rightarrow> bool \<Rightarrow> state \<Rightarrow> revert + (unit \<times> state)" where
  "vote e proposalId support =
     validProposal proposalId (votingPeriod e proposalId (vote_body e proposalId support))"

text \<open>
  \<open>voteFor(proposalId)\<close> and \<open>voteAgainst(proposalId)\<close> (lines 139 to 149) have the bodies
  \<open>vote(proposalId, true)\<close> and \<open>vote(proposalId, false)\<close>. But \<open>vote\<close> is declared
  \<open>external\<close>, and an external function is not visible under its plain name inside the
  contract: the compiler refuses both bodies. The two wrappers therefore have no
  behaviour to embed and are not part of this model. Whatever a repaired wrapper would
  do, it could change storage only through \<open>vote\<close>, called for some sender at some time.
\<close>

text \<open>The views. \<open>getProposal\<close> returns the nine value fields, in the order of the source.\<close>

type_synonym proposal_view =
  "uint256 \<times> string \<times> string \<times> address \<times> uint256 \<times> uint256 \<times> uint256 \<times> uint256 \<times> bool"

definition getProposal :: "uint256 \<Rightarrow> state \<Rightarrow> revert + proposal_view" where
  "getProposal proposalId =
     validProposal proposalId
       (\<lambda>s. let proposal = proposals s proposalId
            in Inr (id_f proposal, title proposal, description proposal, proposer proposal,
                    endDate proposal, votesFor proposal, votesAgainst proposal,
                    totalVoters proposal, isExecuted proposal))"

definition getProposalStatus :: "env \<Rightarrow> uint256 \<Rightarrow> state \<Rightarrow> revert + string" where
  "getProposalStatus e proposalId =
     validProposal proposalId
       (\<lambda>s. let proposal = proposals s proposalId
            in if isExecuted proposal
               then (if votesFor proposal > votesAgainst proposal
                     then Inr ''Passed'' else Inr ''Failed'')
               else if block_timestamp e > endDate proposal
               then (if votesFor proposal > votesAgainst proposal
                        \<and> votesFor proposal \<ge> MIN_VOTES_TO_PASS
                     then Inr ''Passed'' else Inr ''Failed'')
               else Inr ''Active'')"

definition hasVoted_ext :: "uint256 \<Rightarrow> address \<Rightarrow> state \<Rightarrow> revert + bool" where
  "hasVoted_ext proposalId voter =
     validProposal proposalId (\<lambda>s. Inr (hasVoted (proposals s proposalId) voter))"

definition getTotalProposals :: "state \<Rightarrow> uint256" where
  "getTotalProposals s = proposalCount s"

section \<open>Transactions and reachable states\<close>

text \<open>
  A call that reverts leaves storage and log as they were before it; a call that returns
  commits the state it computed.
\<close>

definition transact :: "(state \<Rightarrow> revert + ('a \<times> state)) \<Rightarrow> state \<Rightarrow> (revert + 'a) \<times> state" where
  "transact f s = (case f s of Inl err \<Rightarrow> (Inl err, s) | Inr (r, s') \<Rightarrow> (Inr r, s'))"

text \<open>The state-changing entry points of the contract that have a behaviour.\<close>

datatype call =
    CreateProposal string string
  | Vote uint256 bool

fun step :: "env \<Rightarrow> call \<Rightarrow> state \<Rightarrow> state" where
  "step e (CreateProposal t d) s = snd (transact (createProposal e t d) s)"
| "step e (Vote proposalId support) s = snd (transact (vote e proposalId support) s)"

fun run :: "state \<Rightarrow> (env \<times> call) list \<Rightarrow> state" where
  "run s [] = s"
| "run s ((e, c) # cs) = run (step e c s) cs"

text \<open>
  The states the contract can be in: the one the constructor leaves, and every state a
  call (by any sender, at any time) leads to from one of them. The views change nothing.
\<close>

inductive reachable :: "state \<Rightarrow> bool" where
  init: "reachable constructor"
| call: "reachable s \<Longrightarrow> reachable (step e c s)"

text \<open>The error kinds of the specification, read off the revert reasons of the source.\<close>

datatype error_kind =
  ValidationError | NotFoundError | VotingClosedError | DuplicateVoteError | ArithmeticPanic | OtherError

fun kind_of :: "revert \<Rightarrow> error_kind" where
  "kind_of (Panic _) = ArithmeticPanic"
| "kind_of (Revert msg) =
     (if msg = ''Title cannot be empty'' \<or> msg = ''Description cannot be empty'' then ValidationError
      else if msg = ''Proposal does not exist'' then NotFoundError
      else if msg = ''Voting period has ended'' then VotingClosedError
      else if msg = ''Already voted on this proposal'' then DuplicateVoteError
      else OtherError)"

section \<open>Invariants of the registry\<close>

text \<open>
  What holds of every slot of \<open>proposals\<close> in every state the contract can reach: the
  proposal is not executed, the two tallies add up to \<open>totalVoters\<close> (as numbers, with
  no wrap-around), and \<open>totalVoters\<close> counts the addresses recorded in \<open>hasVoted\<close>.
\<close>

definition proposal_ok :: "Proposal \<Rightarrow> bool" where
  "proposal_ok p =
     (\<not> isExecuted p
      \<and> unat (votesFor p) + unat (votesAgainst p) = unat (totalVoters p)
      \<and> unat (totalVoters p) = card {a. hasVoted p a})"

text \<open>
  Slots at and above \<open>proposalCount\<close> have never been voted on, and a slot below it
  holds the proposal of that id.
\<close>

definition registry_inv :: "state \<Rightarrow> bool" where
  "registry_inv s =
     (\<forall>i. proposal_ok (proposals s i)
        \<and> (proposalCount s \<le> i \<longrightarrow> hasVoted (proposals s i) = (\<lambda>_. False))
        \<and> (i < proposalCount s \<longrightarrow> id_f (proposals s i) = i))"

text \<open>
  The status rule in the words of the specification (section 4.1, getProposalStatus),
  for comparison with \<open>getProposalStatus\<close> of the source: executed, tallies, deadline
  and current time in; the status out.
\<close>

definition spec_status :: "bool \<Rightarrow> uint256 \<Rightarrow> uint256 \<Rightarrow> uint256 \<Rightarrow> uint256 \<Rightarrow> string" where
  "spec_status executed vFor vAgainst deadline now =
     (if executed then (if vFor > vAgainst then ''Passed'' else ''Failed'')
      else if now > deadline then (if vFor > vAgainst \<and> vFor \<ge> 1000 then ''Passed'' else ''Failed'')
      else ''Active'')"

section \<open>Scenarios\<close>

text \<open>
  Concrete callers, a creation time and short call sequences from the constructor, used
  to run the operations on explicit inputs.
\<close>

definition alice :: address where
  "alice = 0xA11CE"

definition bob :: address where
  "bob = 0xB0B"

definition t0 :: uint256 where
  "t0 = 1700000000"

definition at :: "address \<Rightarrow> uint256 \<Rightarrow> env" where
  "at a t = \<lparr>msg_sender = a, block_timestamp = t\<rparr>"

text \<open>Alice creates proposal 0 at \<open>t0\<close>; its deadline is \<open>t0 + 14 days = 1701209600\<close>.\<close>

definition created :: state where
  "created = run constructor [(at alice t0, CreateProposal ''Lower fees'' ''Reduce fees to 0.1%'')]"

text \<open>A day later Bob votes for it.\<close>

definition voted :: state where
  "voted = run created [(at bob (t0 + 86400), Vote 0 True)]"

text \<open>A registry holding the ids 0, 1 and 2.\<close>

definition three :: state where
  "three = run constructor
     [(at alice t0, CreateProposal ''Lower fees'' ''Reduce fees to 0.1%''),
      (at bob t0, CreateProposal ''Raise cap'' ''Double the deposit cap''),
      (at alice (t0 + 1), CreateProposal ''New logo'' ''Adopt the new logo'')]"

text \<open>
  The specification's quorum scenario: \<open>n\<close> distinct identities (the addresses
  \<open>0 .. n - 1\<close>) vote for proposal \<open>i\<close> at time \<open>t\<close>, each by \<open>vote(i, true)\<close>.
\<close>

definition voters_for :: "uint256 \<Rightarrow> uint256 \<Rightarrow> nat \<Rightarrow> (env \<times> call) list" where
  "voters_for t i n = map (\<lambda>k. (at (of_nat k) t, Vote i True)) [0..<n]"

text \<open>
  Proposal 0 is created at \<open>t0\<close>; a day later \<open>n\<close> identities vote for it and one more
  (the address \<open>n\<close>) votes against.
\<close>

definition tallied :: "nat \<Rightarrow> state" where
  "tallied n = run created (voters_for (t0 + 86400) 0 n @ [(at (of_nat n) (t0 + 86400), Vote 0 False)])"

section \<open>Basic facts\<close>

lemma reachable_run: "reachable s \<Longrightarrow> reachable (run s cs)"
proof (induction cs arbitrary: s)
  case Nil
  then show ?case by simp
next
  case (Cons x cs)
  obtain e c where x: "x = (e, c)" by (cases x)
  have "reachable (step e c s)" using Cons.prems by (rule reachable.call)
  then have "reachable (run (step e c s) cs)" by (rule Cons.IH)
  then show ?case by (simp add: x)
qed

lemma unat_checked: "unat (a::uint256) + unat b < 2 ^ 256 \<Longrightarrow> unat (a + b) = unat a + unat b"
  by (simp add: unat_word_ariths)

lemma createProposal_Inr:
  "createProposal e t d s = Inr (i, s') \<longleftrightarrow>
     t \<noteq> [] \<and> d \<noteq> [] \<and> unat (proposalCount s) + 1 < 2 ^ 256
     \<and> unat (block_timestamp e) + unat VOTING_PERIOD < 2 ^ 256
     \<and> i = proposalCount s
     \<and> s' = s\<lparr>proposalCount := proposalCount s + 1,
              proposals := (proposals s)(proposalCount s :=
                 (proposals s (proposalCount s))\<lparr>id_f := proposalCount s, title := t,
                    description := d, proposer := msg_sender e,
                    endDate := block_timestamp e + VOTING_PERIOD, votesFor := 0,
                    votesAgainst := 0, totalVoters := 0, isExecuted := False\<rparr>),
              log := log s @ [ProposalCreated (proposalCount s) t (msg_sender e)
                                (block_timestamp e + VOTING_PERIOD)]\<rparr>"
  by (auto simp: createProposal_def checked_add_def upd_proposal_def emit_def Let_def)

lemma vote_Inr:
  "vote e i b s = Inr (u, s') \<longleftrightarrow>
     i < proposalCount s \<and> block_timestamp e \<le> endDate (proposals s i)
     \<and> \<not> hasVoted (proposals s i) (msg_sender e)
     \<and> unat (totalVoters (proposals s i)) + 1 < 2 ^ 256
     \<and> unat (if b then votesFor (proposals s i) else votesAgainst (proposals s i)) + 1 < 2 ^ 256
     \<and> s' = s\<lparr>proposals := (proposals s)(i :=
                 (proposals s i)\<lparr>hasVoted := (hasVoted (proposals s i))(msg_sender e := True),
                    totalVoters := totalVoters (proposals s i) + 1,
                    votesFor := (if b then votesFor (proposals s i) + 1 else votesFor (proposals s i)),
                    votesAgainst := (if b then votesAgainst (proposals s i) else votesAgainst (proposals s i) + 1)\<rparr>),
              log := log s @ [VoteCast i (msg_sender e) b
                   (if b then votesFor (proposals s i) + 1 else votesFor (proposals s i))
                   (if b then votesAgainst (proposals s i) else votesAgainst (proposals s i) + 1)]\<rparr>"
  by (auto simp: vote_def validProposal_def votingPeriod_def vote_body_def checked_add_def upd_proposal_def emit_def Let_def)


lemma proposal_ok_zero: "proposal_ok zero_Proposal"
  by (simp add: proposal_ok_def zero_Proposal_def)

lemma registry_inv_constructor: "registry_inv constructor"
  by (simp add: registry_inv_def constructor_def proposal_ok_zero) (simp add: zero_Proposal_def)

lemma word_less_succ:
  assumes "unat (c::uint256) + 1 < 2 ^ 256" and "c + 1 \<le> i"
  shows "c < i" and "c \<noteq> i"
proof -
  have "unat (c + 1) = unat c + 1" using unat_checked [of c 1] assms(1) by simp
  moreover have "unat (c + 1) \<le> unat i" using assms(2) by (simp add: word_le_nat_alt)
  ultimately have "unat c < unat i" by simp
  then show "c < i" by (simp add: word_less_nat_alt)
  then show "c \<noteq> i" by simp
qed

lemma word_less_succI:
  assumes "unat (c::uint256) + 1 < 2 ^ 256" and "i < c + 1" and "i \<noteq> c"
  shows "i < c"
proof -
  have "unat (c + 1) = unat c + 1" using unat_checked [of c 1] assms(1) by simp
  moreover have "unat i < unat (c + 1)" using assms(2) by (simp add: word_less_nat_alt)
  moreover have "unat i \<noteq> unat c" using assms(3) by (simp add: word_unat_eq_iff)
  ultimately have "unat i < unat c" by simp
  then show ?thesis by (simp add: word_less_nat_alt)
qed

lemma registry_inv_createProposal:
  assumes "registry_inv s" and "createProposal e t d s = Inr (i, s')"
  shows "registry_inv s'"
proof -
  let ?c = "proposalCount s"
  from assms(2) have ovf: "unat ?c + 1 < 2 ^ 256"
    and s': "s' = s\<lparr>proposalCount := ?c + 1,
              proposals := (proposals s)(?c :=
                 (proposals s ?c)\<lparr>id_f := ?c, title := t,
                    description := d, proposer := msg_sender e,
                    endDate := block_timestamp e + VOTING_PERIOD, votesFor := 0,
                    votesAgainst := 0, totalVoters := 0, isExecuted := False\<rparr>),
              log := log s @ [ProposalCreated ?c t (msg_sender e)
                                (block_timestamp e + VOTING_PERIOD)]\<rparr>"
    by (simp_all add: createProposal_Inr)
  have fresh: "hasVoted (proposals s ?c) = (\<lambda>_. False)"
    using assms(1) by (simp add: registry_inv_def)
  show ?thesis
    unfolding registry_inv_def
  proof (intro allI conjI impI)
    fix j
    show "proposal_ok (proposals s' j)"
      using assms(1) fresh by (simp add: s' registry_inv_def proposal_ok_def)
    show "hasVoted (proposals s' j) = (\<lambda>_. False)" if "proposalCount s' \<le> j"
    proof -
      from that have "?c + 1 \<le> j" by (simp add: s')
      with ovf have "?c < j" "?c \<noteq> j" by (rule word_less_succ)+
      then show ?thesis using assms(1) by (simp add: s' registry_inv_def)
    qed
    show "id_f (proposals s' j) = j" if "j < proposalCount s'"
    proof (cases "j = ?c")
      case True
      then show ?thesis by (simp add: s')
    next
      case False
      from that have "j < ?c + 1" by (simp add: s')
      with ovf False have "j < ?c" by (simp add: word_less_succI)
      then show ?thesis using assms(1) False by (simp add: s' registry_inv_def)
    qed
  qed
qed

lemma hasVoted_insert: "{a. (f(v := True)) a} = insert v {a. f a}"
  by auto

lemma registry_inv_vote:
  assumes "registry_inv s" and "vote e i b s = Inr (u, s')"
  shows "registry_inv s'"
proof -
  let ?p = "proposals s i"
  from assms(2) have ex: "i < proposalCount s" and nv: "\<not> hasVoted ?p (msg_sender e)"
    and o1: "unat (totalVoters ?p) + 1 < 2 ^ 256"
    and o2: "unat (if b then votesFor ?p else votesAgainst ?p) + 1 < 2 ^ 256"
    and s': "s' = s\<lparr>proposals := (proposals s)(i :=
                 ?p\<lparr>hasVoted := (hasVoted ?p)(msg_sender e := True),
                    totalVoters := totalVoters ?p + 1,
                    votesFor := (if b then votesFor ?p + 1 else votesFor ?p),
                    votesAgainst := (if b then votesAgainst ?p else votesAgainst ?p + 1)\<rparr>),
              log := log s @ [VoteCast i (msg_sender e) b
                   (if b then votesFor ?p + 1 else votesFor ?p)
                   (if b then votesAgainst ?p else votesAgainst ?p + 1)]\<rparr>"
    by (simp_all add: vote_Inr)
  have ok: "proposal_ok ?p" using assms(1) by (simp add: registry_inv_def)
  have tv: "unat (totalVoters ?p + 1) = unat (totalVoters ?p) + 1"
    using unat_checked [of "totalVoters ?p" 1] o1 by simp
  have card: "card {a. ((hasVoted ?p)(msg_sender e := True)) a} = card {a. hasVoted ?p a} + 1"
  proof -
    have "card (insert (msg_sender e) {a. hasVoted ?p a}) = Suc (card {a. hasVoted ?p a})"
      using nv by (intro card_insert_disjoint) simp_all
    then show ?thesis by (simp only: hasVoted_insert Suc_eq_plus1)
  qed
  have new_ok: "proposal_ok (proposals s' i)"
  proof (cases b)
    case True
    with o2 have "unat (votesFor ?p + 1) = unat (votesFor ?p) + 1"
      using unat_checked [of "votesFor ?p" 1] by simp
    with ok tv card True show ?thesis by (simp add: s' proposal_ok_def)
  next
    case False
    with o2 have "unat (votesAgainst ?p + 1) = unat (votesAgainst ?p) + 1"
      using unat_checked [of "votesAgainst ?p" 1] by simp
    with ok tv card False show ?thesis by (simp add: s' proposal_ok_def)
  qed
  show ?thesis
    unfolding registry_inv_def
  proof (intro allI conjI impI)
    fix j
    show "proposal_ok (proposals s' j)"
    proof (cases "j = i")
      case True
      with new_ok show ?thesis by simp
    next
      case False
      then show ?thesis using assms(1) by (simp add: s' registry_inv_def)
    qed
    show "hasVoted (proposals s' j) = (\<lambda>_. False)" if "proposalCount s' \<le> j"
    proof -
      from that ex have "j \<noteq> i" by (auto simp: s')
      then show ?thesis using assms(1) that by (simp add: s' registry_inv_def)
    qed
    show "id_f (proposals s' j) = j" if "j < proposalCount s'"
      using assms(1) that by (simp add: s' registry_inv_def)
  qed
qed

lemma registry_inv_transact_createProposal:
  "registry_inv s \<Longrightarrow> registry_inv (snd (transact (createProposal e t d) s))"
  by (auto simp: transact_def split: sum.splits dest: registry_inv_createProposal)

lemma registry_inv_transact_vote:
  "registry_inv s \<Longrightarrow> registry_inv (snd (transact (vote e i b) s))"
  by (auto simp: transact_def split: sum.splits dest: registry_inv_vote)

lemma registry_inv_step: "registry_inv s \<Longrightarrow> registry_inv (step e c s)"
  by (cases c)
     (simp_all add: registry_inv_transact_createProposal registry_inv_transact_vote)

lemma reachable_inv: "reachable s \<Longrightarrow> registry_inv s"
  by (induction rule: reachable.induct) (simp_all add: registry_inv_constructor registry_inv_step)

section \<open>The scenarios, evaluated\<close>

lemmas eval_defs = createProposal_def vote_def vote_body_def
  validProposal_def votingPeriod_def checked_add_def upd_proposal_def emit_def transact_def
  constructor_def zero_Proposal_def VOTING_PERIOD_def MIN_VOTES_TO_PASS_def Let_def
  alice_def bob_def t0_def at_def

lemma created_eval:
  "created = \<lparr>proposals = (\<lambda>_. zero_Proposal)(0 := \<lparr>id_f = 0, title = ''Lower fees'',
       description = ''Reduce fees to 0.1%'', proposer = alice, endDate = 1701209600,
       votesFor = 0, votesAgainst = 0, totalVoters = 0, isExecuted = False,
       hasVoted = (\<lambda>_. False)\<rparr>),
     proposalCount = 1,
     log = [ProposalCreated 0 ''Lower fees'' alice 1701209600]\<rparr>"
  by (simp add: created_def eval_defs)

lemma voted_eval:
  "voted = \<lparr>proposals = (\<lambda>_. zero_Proposal)(0 := \<lparr>id_f = 0, title = ''Lower fees'',
       description = ''Reduce fees to 0.1%'', proposer = alice, endDate = 1701209600,
       votesFor = 1, votesAgainst = 0, totalVoters = 1, isExecuted = False,
       hasVoted = (\<lambda>_. False)(bob := True)\<rparr>),
     proposalCount = 1,
     log = [ProposalCreated 0 ''Lower fees'' alice 1701209600, VoteCast 0 bob True 1 0]\<rparr>"
  by (simp add: voted_def created_eval) (simp add: eval_defs)

lemma reachable_created: "reachable created"
  unfolding created_def by (rule reachable_run [OF reachable.init])

lemma reachable_voted: "reachable voted"
  unfolding voted_def by (rule reachable_run [OF reachable_created])

lemma three_fields:
  "proposalCount three = 3"
  "getProposal 2 three = Inr (2, ''New logo'', ''Adopt the new logo'', alice, 1701209601, 0, 0, 0, False)"
  by (simp_all add: three_def eval_defs getProposal_def)

section \<open>Many distinct voters\<close>

text \<open>
  \<open>n\<close> distinct addresses voting for a fresh, open proposal leave \<open>votesFor\<close> and
  \<open>totalVoters\<close> at \<open>n\<close> and exactly these addresses in \<open>hasVoted\<close>.
\<close>

lemma run_append: "run s (xs @ ys) = run (run s xs) ys"
  by (induction xs arbitrary: s) auto

lemma voters_for_Suc:
  "voters_for t i (Suc n) = voters_for t i n @ [(at (of_nat n) t, Vote i True)]"
  by (simp add: voters_for_def)

lemma unat_of_nat_address: "n < 2 ^ 160 \<Longrightarrow> unat (of_nat n :: address) = n"
  by (simp add: unat_of_nat)

lemma unat_of_nat_uint256: "n < 2 ^ 160 \<Longrightarrow> unat (of_nat n :: uint256) = n"
proof -
  assume "n < 2 ^ 160"
  moreover have "(2::nat) ^ 160 < 2 ^ 256" by simp
  ultimately have "n < 2 ^ 256" by (rule less_trans)
  then show ?thesis by (simp add: unat_of_nat)
qed

lemma run_voters_for:
  assumes "i < proposalCount s" and "t \<le> endDate (proposals s i)"
    and "hasVoted (proposals s i) = (\<lambda>_. False)"
    and "totalVoters (proposals s i) = 0" and "votesFor (proposals s i) = 0"
    and "n < 2 ^ 160"
  shows "proposalCount (run s (voters_for t i n)) = proposalCount s
         \<and> proposals (run s (voters_for t i n)) i
             = (proposals s i)\<lparr>hasVoted := (\<lambda>a. unat a < n), totalVoters := of_nat n,
                                votesFor := of_nat n\<rparr>"
  using assms(6)
proof (induction n)
  case 0
  show ?case using assms(3,4,5) by (simp add: voters_for_def)
next
  case (Suc n)
  let ?s = "run s (voters_for t i n)"
  let ?e = "at (of_nat n) t"
  from Suc have n: "n < 2 ^ 160" by simp
  with Suc.IH have cnt: "proposalCount ?s = proposalCount s"
    and p: "proposals ?s i = (proposals s i)\<lparr>hasVoted := (\<lambda>a. unat a < n),
              totalVoters := of_nat n, votesFor := of_nat n\<rparr>"
    by simp_all
  have un: "unat (of_nat n :: uint256) + 1 < 2 ^ 256"
  proof -
    have "(2::nat) ^ 160 < 2 ^ 256" by simp
    with n have "n + 1 < 2 ^ 256" by linarith
    then show ?thesis by (simp add: unat_of_nat_uint256 [OF n])
  qed
  have hv: "(\<lambda>a::address. unat a < n)(of_nat n := True) = (\<lambda>a. unat a < Suc n)"
  proof
    fix a :: address
    have "a = of_nat n \<longleftrightarrow> unat a = n"
      using unat_of_nat_address [OF n] by (auto simp: word_unat_eq_iff)
    then show "((\<lambda>a::address. unat a < n)(of_nat n := True)) a = (unat a < Suc n)"
      by auto
  qed
  obtain s' where v: "vote ?e i True ?s = Inr ((), s')"
    and s': "s' = ?s\<lparr>proposals := (proposals ?s)(i :=
                 (proposals ?s i)\<lparr>hasVoted := (hasVoted (proposals ?s i))(msg_sender ?e := True),
                    totalVoters := totalVoters (proposals ?s i) + 1,
                    votesFor := votesFor (proposals ?s i) + 1,
                    votesAgainst := votesAgainst (proposals ?s i)\<rparr>),
              log := log ?s @ [VoteCast i (msg_sender ?e) True
                   (votesFor (proposals ?s i) + 1) (votesAgainst (proposals ?s i))]\<rparr>"
    using assms(1,2) un unat_of_nat_address [OF n]
    by (simp add: vote_Inr cnt p at_def)
  have "run s (voters_for t i (Suc n)) = s'"
    by (simp add: voters_for_Suc run_append transact_def v)
  moreover have "proposalCount s' = proposalCount s" by (simp add: s' cnt)
  moreover have "proposals s' i = (proposals s i)\<lparr>hasVoted := (\<lambda>a. unat a < Suc n),
       totalVoters := of_nat (Suc n), votesFor := of_nat (Suc n)\<rparr>"
    using hv by (simp add: s' p at_def)
  ultimately show ?case by simp
qed

text \<open>The quorum scenario: \<open>n\<close> votes for proposal 0 and one against.\<close>

lemma tallied_fields:
  assumes "n < 2 ^ 160"
  shows "proposalCount (tallied n) = 1"
    and "proposals (tallied n) 0
           = \<lparr>id_f = 0, title = ''Lower fees'', description = ''Reduce fees to 0.1%'',
              proposer = alice, endDate = 1701209600, votesFor = of_nat n, votesAgainst = 1,
              totalVoters = of_nat n + 1, isExecuted = False,
              hasVoted = (\<lambda>a. unat a < n)(of_nat n := True)\<rparr>"
proof -
  let ?t = "t0 + 86400"
  let ?s = "run created (voters_for ?t 0 n)"
  let ?e = "at (of_nat n) ?t"
  have "0 < proposalCount created" "?t \<le> endDate (proposals created 0)"
    "hasVoted (proposals created 0) = (\<lambda>_. False)"
    "totalVoters (proposals created 0) = 0" "votesFor (proposals created 0) = 0"
    by (simp_all add: created_eval) (simp add: t0_def)
  from run_voters_for [OF this assms]
  have cnt: "proposalCount ?s = 1"
    and p: "proposals ?s 0 = \<lparr>id_f = 0, title = ''Lower fees'',
              description = ''Reduce fees to 0.1%'',
              proposer = alice, endDate = 1701209600, votesFor = of_nat n, votesAgainst = 0,
              totalVoters = of_nat n, isExecuted = False, hasVoted = (\<lambda>a. unat a < n)\<rparr>"
    by (simp_all add: created_eval)
  have un: "unat (of_nat n :: uint256) + 1 < 2 ^ 256"
  proof -
    have "(2::nat) ^ 160 < 2 ^ 256" by simp
    with assms have "n + 1 < 2 ^ 256" by linarith
    then show ?thesis by (simp add: unat_of_nat_uint256 [OF assms])
  qed
  obtain s' where v: "vote ?e 0 False ?s = Inr ((), s')"
    and s': "s' = ?s\<lparr>proposals := (proposals ?s)(0 :=
                 (proposals ?s 0)\<lparr>hasVoted := (hasVoted (proposals ?s 0))(msg_sender ?e := True),
                    totalVoters := totalVoters (proposals ?s 0) + 1,
                    votesFor := votesFor (proposals ?s 0),
                    votesAgainst := votesAgainst (proposals ?s 0) + 1\<rparr>),
              log := log ?s @ [VoteCast 0 (msg_sender ?e) False
                   (votesFor (proposals ?s 0)) (votesAgainst (proposals ?s 0) + 1)]\<rparr>"
    using un unat_of_nat_address [OF assms]
    by (simp add: vote_Inr cnt p) (simp add: at_def t0_def)
  have t: "tallied n = s'"
    by (simp add: tallied_def run_append transact_def v)
  show "proposalCount (tallied n) = 1" by (simp add: t s' cnt)
  show "proposals (tallied n) 0
           = \<lparr>id_f = 0, title = ''Lower fees'', description = ''Reduce fees to 0.1%'',
              proposer = alice, endDate = 1701209600, votesFor = of_nat n, votesAgainst = 1,
              totalVoters = of_nat n + 1, isExecuted = False,
              hasVoted = (\<lambda>a. unat a < n)(of_nat n := True)\<rparr>"
    by (simp add: t s' p at_def)
qed

text \<open>With 1000 votes for and one against, the status after the deadline is "Passed".\<close>

lemma quorum_met:
  "getProposalStatus (at alice (t0 + 15 * 86400)) 0 (tallied 1000) = Inr ''Passed''"
proof -
  have n: "(1000::nat) < 2 ^ 160" by simp
  note f = tallied_fields [OF n]
  show ?thesis
    by (simp add: getProposalStatus_def validProposal_def f at_def t0_def MIN_VOTES_TO_PASS_def
           word_less_nat_alt)
qed

section \<open>Error handling of the state-changing operations\<close>

text \<open>
  Claim C4. A vote on an existing proposal at a time after its \<open>endDate\<close> reverts with
  "Voting period has ended" (the specification's VotingClosedError), whoever votes and
  whatever the support; the transaction leaves storage and log exactly as they were.
\<close>

theorem C4_vote_after_deadline:
  assumes "i < proposalCount s" and "endDate (proposals s i) < block_timestamp e"
  shows "transact (vote e i b) s = (Inl (Revert ''Voting period has ended''), s)
         \<and> kind_of (Revert ''Voting period has ended'') = VotingClosedError"
proof -
  have "\<not> block_timestamp e \<le> endDate (proposals s i)" using assms(2) by simp
  then have "vote e i b s = Inl (Revert ''Voting period has ended'')"
    using assms(1) by (simp add: vote_def validProposal_def votingPeriod_def)
  then show ?thesis by (simp add: transact_def)
qed

text \<open>Fifteen days after creation, Bob's vote on proposal 0 is refused.\<close>

theorem C4_vote_after_deadline_witness:
  "0 < proposalCount created
   \<and> endDate (proposals created 0) < block_timestamp (at bob (t0 + 15 * 86400))
   \<and> transact (vote (at bob (t0 + 15 * 86400)) 0 True) created
       = (Inl (Revert ''Voting period has ended''), created)
   \<and> kind_of (Revert ''Voting period has ended'') = VotingClosedError"
proof -
  have h1: "0 < proposalCount created" by (simp add: created_eval)
  have h2: "endDate (proposals created 0) < block_timestamp (at bob (t0 + 15 * 86400))"
    by (simp add: created_eval) (simp add: at_def t0_def)
  show ?thesis using h1 h2 C4_vote_after_deadline [OF h1 h2, of True] by simp
qed

text \<open>
  Claim C5. \<open>createProposal\<close> with an empty title or an empty description reverts with
  "Title cannot be empty" or "Description cannot be empty" (the specification's
  ValidationError), in every state; the transaction leaves the state exactly as it was,
  so no proposal is created and \<open>getTotalProposals\<close> is unchanged.
\<close>

theorem C5_createProposal_validation:
  assumes "t = [] \<or> d = []"
  shows "transact (createProposal e t d) s
           = (Inl (Revert (if t = [] then ''Title cannot be empty''
                           else ''Description cannot be empty'')), s)
         \<and> kind_of (Revert (if t = [] then ''Title cannot be empty''
                            else ''Description cannot be empty'')) = ValidationError
         \<and> getTotalProposals (snd (transact (createProposal e t d) s)) = getTotalProposals s"
  using assms by (auto simp: transact_def createProposal_def)

text \<open>An empty description, on the registry that holds proposal 0.\<close>

theorem C5_createProposal_validation_witness:
  "transact (createProposal (at bob t0) ''x'' [] ) created
     = (Inl (Revert ''Description cannot be empty''), created)
   \<and> kind_of (Revert ''Description cannot be empty'') = ValidationError
   \<and> getTotalProposals (snd (transact (createProposal (at bob t0) ''x'' []) created)) = 1"
proof -
  have h: "''x'' = [] \<or> ([] :: string) = []" by simp
  have c: "getTotalProposals created = 1" by (simp add: getTotalProposals_def created_eval)
  show ?thesis using C5_createProposal_validation [OF h, of "at bob t0" created] c by simp
qed

text \<open>
  Bob has voted on proposal 0; fifteen days after creation he votes again. The deadline
  check of \<open>votingPeriod\<close> runs before the body's duplicate check, so the revert reason
  is "Voting period has ended", not "Already voted on this proposal".
\<close>

theorem C3_counterexample:
  "hasVoted (proposals voted 0) bob
   \<and> fst (transact (vote (at bob (t0 + 15 * 86400)) 0 True) voted)
       = Inl (Revert ''Voting period has ended'')
   \<and> kind_of (Revert ''Voting period has ended'') \<noteq> DuplicateVoteError"
  by (simp add: voted_eval) (simp add: eval_defs)

text \<open>
  Claim C3, amended. A vote on an existing proposal by an identity already recorded in
  its \<open>hasVoted\<close> fails, with any support value, and leaves storage and log exactly as
  they were. While the voting window is open (\<open>now \<le> endDate\<close>) the revert reason is
  "Already voted on this proposal" (DuplicateVoteError); after the deadline it is
  "Voting period has ended" (VotingClosedError), since that check comes first.
\<close>

theorem C3_second_vote:
  assumes "i < proposalCount s" and "hasVoted (proposals s i) (msg_sender e)"
  shows "transact (vote e i b) s
           = (Inl (Revert (if block_timestamp e \<le> endDate (proposals s i)
                           then ''Already voted on this proposal''
                           else ''Voting period has ended'')), s)
         \<and> kind_of (Revert (if block_timestamp e \<le> endDate (proposals s i)
                            then ''Already voted on this proposal''
                            else ''Voting period has ended''))
             = (if block_timestamp e \<le> endDate (proposals s i)
                then DuplicateVoteError else VotingClosedError)"
  using assms
  by (simp add: transact_def vote_def validProposal_def votingPeriod_def vote_body_def)

text \<open>Two days after creation Bob, who has voted, votes again.\<close>

theorem C3_second_vote_witness:
  "0 < proposalCount voted \<and> hasVoted (proposals voted 0) (msg_sender (at bob (t0 + 2 * 86400)))
   \<and> transact (vote (at bob (t0 + 2 * 86400)) 0 False) voted
       = (Inl (Revert ''Already voted on this proposal''), voted)
   \<and> kind_of (Revert ''Already voted on this proposal'') = DuplicateVoteError"
proof -
  have h1: "0 < proposalCount voted" by (simp add: voted_eval)
  have h2: "hasVoted (proposals voted 0) (msg_sender (at bob (t0 + 2 * 86400)))"
    by (simp add: voted_eval) (simp add: at_def)
  have h3: "block_timestamp (at bob (t0 + 2 * 86400)) \<le> endDate (proposals voted 0)"
    by (simp add: voted_eval) (simp add: at_def t0_def)
  show ?thesis using h1 h2 C3_second_vote [OF h1 h2, of False] h3 by simp
qed

section \<open>The tallies\<close>

text \<open>
  Claim C1. In every reachable state and for every proposal slot (so for every existing
  proposal), \<open>votesFor + votesAgainst = totalVoters\<close>, as numbers without wrap-around
  and hence also as \<open>uint256\<close> values. A successful \<open>createProposal\<close> leaves the three
  counters of the new proposal at zero, and a successful \<open>vote\<close> increments
  \<open>totalVoters\<close> and exactly one of \<open>votesFor\<close> (support) and \<open>votesAgainst\<close>
  (no support) by one.
\<close>

theorem C1_tally_invariant:
  assumes "reachable s"
  shows "unat (votesFor (proposals s i)) + unat (votesAgainst (proposals s i))
           = unat (totalVoters (proposals s i))
     \<and> votesFor (proposals s i) + votesAgainst (proposals s i) = totalVoters (proposals s i)
     \<and> (\<forall>e t d j s'. createProposal e t d s = Inr (j, s') \<longrightarrow>
           votesFor (proposals s' j) = 0 \<and> votesAgainst (proposals s' j) = 0
           \<and> totalVoters (proposals s' j) = 0)
     \<and> (\<forall>e j b u s'. vote e j b s = Inr (u, s') \<longrightarrow>
           unat (totalVoters (proposals s' j)) = unat (totalVoters (proposals s j)) + 1
           \<and> unat (votesFor (proposals s' j))
               = unat (votesFor (proposals s j)) + (if b then 1 else 0)
           \<and> unat (votesAgainst (proposals s' j))
               = unat (votesAgainst (proposals s j)) + (if b then 0 else 1))"
proof (intro conjI allI impI)
  let ?p = "proposals s i"
  from assms have "registry_inv s" by (rule reachable_inv)
  then show sum: "unat (votesFor ?p) + unat (votesAgainst ?p) = unat (totalVoters ?p)"
    by (simp add: registry_inv_def proposal_ok_def)
  have "unat (votesFor ?p + votesAgainst ?p) = unat (totalVoters ?p)"
    using sum unat_checked [of "votesFor ?p" "votesAgainst ?p"] unsigned_less [of "totalVoters ?p"]
    by simp
  then show "votesFor ?p + votesAgainst ?p = totalVoters ?p"
    by (simp add: word_unat_eq_iff)
next
  fix e t d j s'
  assume "createProposal e t d s = Inr (j, s')"
  then have j: "j = proposalCount s" and s': "proposals s' j = (proposals s (proposalCount s))\<lparr>id_f := proposalCount s, title := t,
                    description := d, proposer := msg_sender e,
                    endDate := block_timestamp e + VOTING_PERIOD, votesFor := 0,
                    votesAgainst := 0, totalVoters := 0, isExecuted := False\<rparr>"
    by (simp_all add: createProposal_Inr)
  show "votesFor (proposals s' j) = 0" "votesAgainst (proposals s' j) = 0"
    "totalVoters (proposals s' j) = 0"
    by (simp_all add: s')
next
  fix e j b u s'
  let ?p = "proposals s j"
  assume "vote e j b s = Inr (u, s')"
  then have o1: "unat (totalVoters ?p) + 1 < 2 ^ 256"
    and o2: "unat (if b then votesFor ?p else votesAgainst ?p) + 1 < 2 ^ 256"
    and s': "proposals s' j = ?p\<lparr>hasVoted := (hasVoted ?p)(msg_sender e := True),
                    totalVoters := totalVoters ?p + 1,
                    votesFor := (if b then votesFor ?p + 1 else votesFor ?p),
                    votesAgainst := (if b then votesAgainst ?p else votesAgainst ?p + 1)\<rparr>"
    by (simp_all add: vote_Inr)
  show "unat (totalVoters (proposals s' j)) = unat (totalVoters ?p) + 1"
    using o1 unat_checked [of "totalVoters ?p" 1] by (simp add: s')
  show "unat (votesFor (proposals s' j)) = unat (votesFor ?p) + (if b then 1 else 0)"
    using o2 unat_checked [of "votesFor ?p" 1] by (cases b) (simp_all add: s')
  show "unat (votesAgainst (proposals s' j)) = unat (votesAgainst ?p) + (if b then 0 else 1)"
    using o2 unat_checked [of "votesAgainst ?p" 1] by (cases b) (simp_all add: s')
qed

text \<open>The state after one proposal and one vote for it.\<close>

theorem C1_tally_invariant_witness:
  "reachable voted
   \<and> unat (votesFor (proposals voted 0)) + unat (votesAgainst (proposals voted 0))
       = unat (totalVoters (proposals voted 0))
   \<and> votesFor (proposals voted 0) + votesAgainst (proposals voted 0) = totalVoters (proposals voted 0)
   \<and> totalVoters (proposals voted 0) = 1"
  using reachable_voted C1_tally_invariant [OF reachable_voted, of 0]
  by (simp add: voted_eval)

section \<open>Execution\<close>

text \<open>
  Claim C8. In every state reachable through the exposed operations, \<open>isExecuted\<close> is
  false for every proposal: \<open>createProposal\<close> writes false, \<open>vote\<close> (by any sender, so
  also on behalf of any wrapper) does not write the field, the views write nothing. So \<open>getProposalStatus\<close> on an existing proposal never
  takes its first branch: it is decided by deadline, majority and quorum alone.
\<close>

theorem C8_never_executed:
  assumes "reachable s"
  shows "\<not> isExecuted (proposals s i)
         \<and> (i < proposalCount s \<longrightarrow>
              getProposalStatus e i s =
                Inr (if block_timestamp e > endDate (proposals s i)
                     then (if votesFor (proposals s i) > votesAgainst (proposals s i)
                              \<and> votesFor (proposals s i) \<ge> MIN_VOTES_TO_PASS
                           then ''Passed'' else ''Failed'')
                     else ''Active''))"
proof -
  from assms have "registry_inv s" by (rule reachable_inv)
  then have "\<not> isExecuted (proposals s i)"
    by (simp add: registry_inv_def proposal_ok_def)
  then show ?thesis
    by (simp add: getProposalStatus_def validProposal_def Let_def)
qed

text \<open>After Bob's vote, and the status fifteen days after creation.\<close>

theorem C8_never_executed_witness:
  "reachable voted \<and> \<not> isExecuted (proposals voted 0)
   \<and> getProposalStatus (at alice (t0 + 15 * 86400)) 0 voted = Inr ''Failed''"
proof -
  note c8 = C8_never_executed [OF reachable_voted, of 0 "at alice (t0 + 15 * 86400)"]
  have f: "0 < proposalCount voted" "endDate (proposals voted 0) = 1701209600"
    "votesFor (proposals voted 0) = 1" "votesAgainst (proposals voted 0) = 0"
    by (simp_all add: voted_eval)
  show ?thesis using reachable_voted c8
    by (simp add: f at_def t0_def MIN_VOTES_TO_PASS_def word_le_nat_alt)
qed

section \<open>Proposal ids\<close>

text \<open>
  Claim C7. The valid proposal ids are exactly those below \<open>proposalCount\<close>. For an id
  at or above it, \<open>vote\<close>, \<open>getProposal\<close>, \<open>getProposalStatus\<close> and \<open>hasVoted\<close> all
  fail with "Proposal does not exist" (NotFoundError), the vote leaving the state
  unchanged. For an id below it none of them fails with that reason,
  the three views return the stored proposal's data, and in a reachable state the
  proposal stored under the id carries that id.
\<close>

theorem C7_valid_ids:
  "(proposalCount s \<le> i \<longrightarrow>
      transact (vote e i b) s = (Inl (Revert ''Proposal does not exist''), s)
      \<and> getProposal i s = Inl (Revert ''Proposal does not exist'')
      \<and> getProposalStatus e i s = Inl (Revert ''Proposal does not exist'')
      \<and> hasVoted_ext i a s = Inl (Revert ''Proposal does not exist''))
   \<and> (i < proposalCount s \<longrightarrow>
      vote e i b s \<noteq> Inl (Revert ''Proposal does not exist'')
      \<and> getProposal i s =
          Inr (id_f (proposals s i), title (proposals s i), description (proposals s i),
               proposer (proposals s i), endDate (proposals s i), votesFor (proposals s i),
               votesAgainst (proposals s i), totalVoters (proposals s i),
               isExecuted (proposals s i))
      \<and> (\<exists>status. getProposalStatus e i s = Inr status)
      \<and> hasVoted_ext i a s = Inr (hasVoted (proposals s i) a)
      \<and> (reachable s \<longrightarrow> id_f (proposals s i) = i))
   \<and> kind_of (Revert ''Proposal does not exist'') = NotFoundError"
proof (intro conjI impI)
  assume "reachable s" and "i < proposalCount s"
  then show "id_f (proposals s i) = i"
    using reachable_inv [of s] by (simp add: registry_inv_def)
qed (auto simp: transact_def vote_def validProposal_def
       votingPeriod_def vote_body_def getProposal_def getProposalStatus_def hasVoted_ext_def
       checked_add_def Let_def not_less [symmetric] split: sum.splits if_splits)

text \<open>
  On the registry with ids 0 to 2: \<open>getProposal(5)\<close> and a vote on id 3 are refused,
  \<open>getProposal(2)\<close> and \<open>getProposalStatus(0)\<close> answer.
\<close>

theorem C7_valid_ids_witness:
  "proposalCount three = 3
   \<and> getProposal 5 three = Inl (Revert ''Proposal does not exist'')
   \<and> kind_of (Revert ''Proposal does not exist'') = NotFoundError
   \<and> transact (vote (at bob t0) 3 True) three = (Inl (Revert ''Proposal does not exist''), three)
   \<and> getProposal 2 three
       = Inr (2, ''New logo'', ''Adopt the new logo'', alice, 1701209601, 0, 0, 0, False)
   \<and> getProposalStatus (at bob t0) 0 three = Inr ''Active''"
proof -
  have a: "proposalCount three \<le> 5" "proposalCount three \<le> 3" "0 < proposalCount three"
    by (simp_all add: three_fields)
  have st: "getProposalStatus (at bob t0) 0 three = Inr ''Active''"
    by (simp add: three_def eval_defs getProposalStatus_def)
  show ?thesis
    using C7_valid_ids [of three 5 "at bob t0" True bob] C7_valid_ids [of three 3 "at bob t0" True bob]
      a st three_fields
    by simp
qed

section \<open>The derived status\<close>

text \<open>
  Claim C2. For every existing proposal, \<open>getProposalStatus\<close> at time \<open>now\<close> returns what
  the specification's rule gives: if \<open>isExecuted\<close>, "Passed" when
  \<open>votesFor > votesAgainst\<close> and else "Failed"; otherwise, once \<open>now\<close> has passed
  \<open>endDate\<close>, "Passed" when \<open>votesFor > votesAgainst\<close> and \<open>votesFor \<ge> 1000\<close> and else
  "Failed"; otherwise "Active". In particular a proposal that is not executed, past its
  deadline, with 999 votes for and 1 against is "Failed".
\<close>

theorem C2_status:
  assumes "i < proposalCount s"
  shows "getProposalStatus e i s
           = Inr (spec_status (isExecuted (proposals s i)) (votesFor (proposals s i))
                    (votesAgainst (proposals s i)) (endDate (proposals s i)) (block_timestamp e))
         \<and> (\<not> isExecuted (proposals s i) \<and> endDate (proposals s i) < block_timestamp e
              \<and> votesFor (proposals s i) = 999 \<and> votesAgainst (proposals s i) = 1
             \<longrightarrow> getProposalStatus e i s = Inr ''Failed'')"
proof -
  have "\<not> (1000::uint256) \<le> 999" by simp
  then show ?thesis
    using assms
    by (simp add: getProposalStatus_def validProposal_def spec_status_def MIN_VOTES_TO_PASS_def
          Let_def)
qed

text \<open>
  The specification's scenario, run from the constructor: 999 identities vote for
  proposal 0 and one against; fifteen days after creation the status is "Failed".
\<close>

theorem C2_status_witness:
  "0 < proposalCount (tallied 999) \<and> \<not> isExecuted (proposals (tallied 999) 0)
   \<and> endDate (proposals (tallied 999) 0) < block_timestamp (at alice (t0 + 15 * 86400))
   \<and> votesFor (proposals (tallied 999) 0) = 999 \<and> votesAgainst (proposals (tallied 999) 0) = 1
   \<and> getProposalStatus (at alice (t0 + 15 * 86400)) 0 (tallied 999) = Inr ''Failed''"
proof -
  have n: "(999::nat) < 2 ^ 160" by simp
  note f = tallied_fields [OF n]
  have h1: "0 < proposalCount (tallied 999)" by (simp add: f)
  have h2: "\<not> isExecuted (proposals (tallied 999) 0)
    \<and> endDate (proposals (tallied 999) 0) < block_timestamp (at alice (t0 + 15 * 86400))
    \<and> votesFor (proposals (tallied 999) 0) = 999 \<and> votesAgainst (proposals (tallied 999) 0) = 1"
    by (simp add: f at_def t0_def)
  show ?thesis
    using h1 h2 C2_status [OF h1, of "at alice (t0 + 15 * 86400)"] by blast
qed

section \<open>Creating a proposal\<close>

text \<open>
  Claim C6. In every reachable state, with a non-empty title and description, a
  successful \<open>createProposal\<close> returns the current \<open>proposalCount\<close> as the new id (0 on
  the registry the constructor leaves), increments the count by one, and stores under
  that id a proposal with the given title, description and creator, the three counters
  at zero, \<open>endDate = now + 14 days\<close> (without wrap-around), \<open>isExecuted = false\<close> and
  nobody recorded in \<open>hasVoted\<close>; the other proposals are untouched, and
  \<open>getProposalStatus\<close> on the new id at the same time returns "Active". The call does
  succeed whenever neither \<open>proposalCount + 1\<close> nor \<open>now + 14 days\<close> overflows
  \<open>uint256\<close>.
\<close>

theorem C6_createProposal_effect:
  assumes "reachable s" and "t \<noteq> []" and "d \<noteq> []"
  shows "(unat (proposalCount s) + 1 < 2 ^ 256 \<and> unat (block_timestamp e) + 14 * 86400 < 2 ^ 256
            \<longrightarrow> (\<exists>s'. createProposal e t d s = Inr (proposalCount s, s')))
         \<and> (\<forall>i s'. createProposal e t d s = Inr (i, s') \<longrightarrow>
               i = proposalCount s
               \<and> unat (getTotalProposals s') = unat (getTotalProposals s) + 1
               \<and> id_f (proposals s' i) = i
               \<and> title (proposals s' i) = t
               \<and> description (proposals s' i) = d
               \<and> proposer (proposals s' i) = msg_sender e
               \<and> votesFor (proposals s' i) = 0
               \<and> votesAgainst (proposals s' i) = 0
               \<and> totalVoters (proposals s' i) = 0
               \<and> unat (endDate (proposals s' i)) = unat (block_timestamp e) + 14 * 86400
               \<and> \<not> isExecuted (proposals s' i)
               \<and> {a. hasVoted (proposals s' i) a} = {}
               \<and> (\<forall>j. j \<noteq> i \<longrightarrow> proposals s' j = proposals s j)
               \<and> getProposalStatus e i s' = Inr ''Active'')"
proof (intro conjI allI impI)
  assume "unat (proposalCount s) + 1 < 2 ^ 256 \<and> unat (block_timestamp e) + 14 * 86400 < 2 ^ 256"
  then show "\<exists>s'. createProposal e t d s = Inr (proposalCount s, s')"
    using assms(2,3) by (simp add: createProposal_Inr VOTING_PERIOD_def)
next
  fix i s'
  let ?c = "proposalCount s"
  assume "createProposal e t d s = Inr (i, s')"
  then have i: "i = ?c" and o1: "unat ?c + 1 < 2 ^ 256"
    and o2: "unat (block_timestamp e) + unat VOTING_PERIOD < 2 ^ 256"
    and s': "s' = s\<lparr>proposalCount := ?c + 1,
              proposals := (proposals s)(?c :=
                 (proposals s ?c)\<lparr>id_f := ?c, title := t,
                    description := d, proposer := msg_sender e,
                    endDate := block_timestamp e + VOTING_PERIOD, votesFor := 0,
                    votesAgainst := 0, totalVoters := 0, isExecuted := False\<rparr>),
              log := log s @ [ProposalCreated ?c t (msg_sender e)
                                (block_timestamp e + VOTING_PERIOD)]\<rparr>"
    by (simp_all add: createProposal_Inr)
  from assms(1) have "registry_inv s" by (rule reachable_inv)
  then have fresh: "hasVoted (proposals s ?c) = (\<lambda>_. False)"
    by (simp add: registry_inv_def)
  have c1: "unat (?c + 1) = unat ?c + 1" using unat_checked [of ?c 1] o1 by simp
  have ed: "unat (block_timestamp e + VOTING_PERIOD) = unat (block_timestamp e) + 14 * 86400"
    using unat_checked [OF o2] by (simp add: VOTING_PERIOD_def)
  have lt: "?c < ?c + 1" using c1 by (simp add: word_less_nat_alt)
  have le: "\<not> block_timestamp e + VOTING_PERIOD < block_timestamp e"
    using ed by (simp add: word_less_nat_alt)
  show "i = ?c" by (rule i)
  show "unat (getTotalProposals s') = unat (getTotalProposals s) + 1"
    by (simp add: getTotalProposals_def s' c1)
  show "id_f (proposals s' i) = i" by (simp add: s' i)
  show "title (proposals s' i) = t" by (simp add: s' i)
  show "description (proposals s' i) = d" by (simp add: s' i)
  show "proposer (proposals s' i) = msg_sender e" by (simp add: s' i)
  show "votesFor (proposals s' i) = 0" by (simp add: s' i)
  show "votesAgainst (proposals s' i) = 0" by (simp add: s' i)
  show "totalVoters (proposals s' i) = 0" by (simp add: s' i)
  show "unat (endDate (proposals s' i)) = unat (block_timestamp e) + 14 * 86400"
    by (simp add: s' i ed)
  show "\<not> isExecuted (proposals s' i)" by (simp add: s' i)
  show "{a. hasVoted (proposals s' i) a} = {}" by (simp add: s' i fresh)
  show "getProposalStatus e i s' = Inr ''Active''"
    using lt le by (simp add: getProposalStatus_def validProposal_def s' i Let_def)
  fix j
  assume "j \<noteq> i"
  then show "proposals s' j = proposals s j" by (simp add: s' i)
qed

text \<open>The first proposal of a fresh registry: id 0, and "Active" at once.\<close>

theorem C6_createProposal_effect_witness:
  "reachable constructor \<and> ''Lower fees'' \<noteq> [] \<and> ''Reduce fees to 0.1%'' \<noteq> []
   \<and> createProposal (at alice t0) ''Lower fees'' ''Reduce fees to 0.1%'' constructor
       = Inr (0, created)
   \<and> unat (getTotalProposals created) = unat (getTotalProposals constructor) + 1
   \<and> unat (endDate (proposals created 0)) = unat t0 + 14 * 86400
   \<and> {a. hasVoted (proposals created 0) a} = {}
   \<and> getProposalStatus (at alice t0) 0 created = Inr ''Active''"
proof -
  have r: "reachable constructor" by (rule reachable.init)
  have t: "''Lower fees'' \<noteq> []" and d: "''Reduce fees to 0.1%'' \<noteq> []" by simp_all
  have c: "createProposal (at alice t0) ''Lower fees'' ''Reduce fees to 0.1%'' constructor
             = Inr (0, created)"
    by (simp add: created_eval) (simp add: eval_defs)
  have e: "block_timestamp (at alice t0) = t0" by (simp add: at_def)
  show ?thesis
    using r c C6_createProposal_effect [OF r t d, of "at alice t0"] e by simp
qed

section \<open>The deadline instant\<close>

lemma card_address: "card (UNIV :: address set) = 2 ^ 160"
  by (simp add: card_word)

text \<open>
  Claim C10. At the instant \<open>now = endDate\<close> of an existing proposal, in every reachable
  state: \<open>getProposalStatus\<close> returns "Active" whatever the tallies, and a vote by an
  identity that has not voted on the proposal succeeds (it is recorded and counted),
  after which the status at that same instant is still "Active". The deadline is
  inclusive for voting and exclusive for closure.
\<close>

theorem C10_deadline_instant:
  assumes "reachable s" and "i < proposalCount s"
    and "block_timestamp e = endDate (proposals s i)"
  shows "getProposalStatus e i s = Inr ''Active''
         \<and> (\<not> hasVoted (proposals s i) (msg_sender e) \<longrightarrow>
              (\<exists>s'. vote e i b s = Inr ((), s')
                 \<and> hasVoted (proposals s' i) (msg_sender e)
                 \<and> unat (totalVoters (proposals s' i)) = unat (totalVoters (proposals s i)) + 1
                 \<and> getProposalStatus e i s' = Inr ''Active''))"
proof (intro conjI impI)
  let ?p = "proposals s i"
  from assms(1) have "registry_inv s" by (rule reachable_inv)
  then have ne: "\<not> isExecuted ?p"
    and sum: "unat (votesFor ?p) + unat (votesAgainst ?p) = unat (totalVoters ?p)"
    and cnt: "unat (totalVoters ?p) = card {a. hasVoted ?p a}"
    by (simp_all add: registry_inv_def proposal_ok_def)
  show "getProposalStatus e i s = Inr ''Active''"
    using assms(2,3) ne by (simp add: getProposalStatus_def validProposal_def)
  assume nv: "\<not> hasVoted ?p (msg_sender e)"
  then have "{a. hasVoted ?p a} \<subset> UNIV" by auto
  then have "card {a. hasVoted ?p a} < card (UNIV :: address set)"
    by (intro psubset_card_mono) simp_all
  then have tv: "unat (totalVoters ?p) < 2 ^ 160" by (simp add: cnt card_address)
  have big: "(2::nat) ^ 160 + 1 < 2 ^ 256" by simp
  have o1: "unat (totalVoters ?p) + 1 < 2 ^ 256" using tv big by linarith
  have o2: "unat (if b then votesFor ?p else votesAgainst ?p) + 1 < 2 ^ 256"
    using sum o1 by (cases b) simp_all
  let ?s' = "s\<lparr>proposals := (proposals s)(i :=
                 ?p\<lparr>hasVoted := (hasVoted ?p)(msg_sender e := True),
                    totalVoters := totalVoters ?p + 1,
                    votesFor := (if b then votesFor ?p + 1 else votesFor ?p),
                    votesAgainst := (if b then votesAgainst ?p else votesAgainst ?p + 1)\<rparr>),
              log := log s @ [VoteCast i (msg_sender e) b
                   (if b then votesFor ?p + 1 else votesFor ?p)
                   (if b then votesAgainst ?p else votesAgainst ?p + 1)]\<rparr>"
  have v: "vote e i b s = Inr ((), ?s')"
    using assms(2,3) nv o1 o2 by (simp add: vote_Inr)
  have "hasVoted (proposals ?s' i) (msg_sender e)" by simp
  moreover have "unat (totalVoters (proposals ?s' i)) = unat (totalVoters ?p) + 1"
    using unat_checked [of "totalVoters ?p" 1] o1 by simp
  moreover have "getProposalStatus e i ?s' = Inr ''Active''"
    using assms(2,3) ne by (simp add: getProposalStatus_def validProposal_def)
  ultimately show "\<exists>s'. vote e i b s = Inr ((), s')
                 \<and> hasVoted (proposals s' i) (msg_sender e)
                 \<and> unat (totalVoters (proposals s' i)) = unat (totalVoters (proposals s i)) + 1
                 \<and> getProposalStatus e i s' = Inr ''Active''"
    using v by blast
qed

text \<open>Alice votes against proposal 0 exactly fourteen days after its creation.\<close>

theorem C10_deadline_instant_witness:
  "reachable voted \<and> 0 < proposalCount voted
   \<and> block_timestamp (at alice (t0 + 14 * 86400)) = endDate (proposals voted 0)
   \<and> \<not> hasVoted (proposals voted 0) (msg_sender (at alice (t0 + 14 * 86400)))
   \<and> getProposalStatus (at alice (t0 + 14 * 86400)) 0 voted = Inr ''Active''
   \<and> (\<exists>s'. vote (at alice (t0 + 14 * 86400)) 0 False voted = Inr ((), s')
          \<and> hasVoted (proposals s' 0) alice
          \<and> unat (totalVoters (proposals s' 0)) = 2)"
proof -
  have h2: "0 < proposalCount voted" by (simp add: voted_eval)
  have h3: "block_timestamp (at alice (t0 + 14 * 86400)) = endDate (proposals voted 0)"
    by (simp add: voted_eval) (simp add: at_def t0_def)
  have h4: "\<not> hasVoted (proposals voted 0) (msg_sender (at alice (t0 + 14 * 86400)))"
    by (simp add: voted_eval) (simp add: at_def alice_def bob_def)
  have f: "unat (totalVoters (proposals voted 0)) = 1" "\<And>t. msg_sender (at alice t) = alice"
    by (simp_all add: voted_eval at_def)
  show ?thesis
    using reachable_voted h2 h3 h4
      C10_deadline_instant [OF reachable_voted h2 h3, of False]
    by (auto simp: f)
qed

end
